theory Spec2Isabelle
  imports Main "HOL-Library.Sublist"
begin

section \<open>Python values used by artic\_mqc.py\<close>

text \<open>
  The exceptions that the functions of \<^verbatim>\<open>artic/artic_mqc.py\<close> can raise.
  \<open>SystemExit\<close> carries the diagnostic that the code prints to the error stream
  before \<^verbatim>\<open>raise SystemExit(1)\<close>; the other constructors are the uncaught
  Python exceptions of indexing, \<^verbatim>\<open>int()\<close>, dictionary lookup, the
  conversion of an integer to a float and \<^verbatim>\<open>next()\<close>.
\<close>

datatype error =
    SystemExit string
  | IndexError
  | ValueError
  | KeyError
  | OverflowError
  | StopIteration

subsection \<open>Dictionaries\<close>

text \<open>
  A Python \<^verbatim>\<open>dict\<close> keeps its keys in insertion order, and the loops of the
  program iterate in that order, so a dictionary is an association list. \<open>dict_set\<close>
  is \<^verbatim>\<open>d[k] = v\<close>: an existing key keeps its position, a new key goes to the end.
\<close>

fun dict_get :: "('k \<times> 'v) list \<Rightarrow> 'k \<Rightarrow> 'v option" where
  "dict_get [] k = None"
| "dict_get ((k', v) # d) k = (if k' = k then Some v else dict_get d k)"

fun dict_set :: "('k \<times> 'v) list \<Rightarrow> 'k \<Rightarrow> 'v \<Rightarrow> ('k \<times> 'v) list" where
  "dict_set [] k v = [(k, v)]"
| "dict_set ((k', v') # d) k v = (if k' = k then (k, v) # d else (k', v') # dict_set d k v)"

definition dict_keys :: "('k \<times> 'v) list \<Rightarrow> 'k list" where
  "dict_keys d = map fst d"

definition dict_values :: "('k \<times> 'v) list \<Rightarrow> 'v list" where
  "dict_values d = map snd d"

text \<open>\<^verbatim>\<open>d[k] += 1\<close>: reads the entry (KeyError when it is absent), then stores.\<close>

definition dict_incr :: "('k \<times> int) list \<Rightarrow> 'k \<Rightarrow> error + ('k \<times> int) list" where
  "dict_incr d k = (case dict_get d k of None \<Rightarrow> Inl KeyError | Some v \<Rightarrow> Inr (dict_set d k (v + 1)))"

subsection \<open>Strings\<close>

text \<open>
  \<^verbatim>\<open>s.split(sep)\<close> for a non-empty separator: the pieces between the
  non-overlapping occurrences of \<open>sep\<close>, found from the left. Every separator in the
  program is a non-empty constant (Python raises on an empty one; here an empty separator
  is never matched).
\<close>

fun py_split :: "string \<Rightarrow> string \<Rightarrow> string list" where
  "py_split sep [] = [[]]"
| "py_split sep (c # cs) =
     (if sep \<noteq> [] \<and> prefix sep (c # cs)
      then [] # py_split sep (drop (length sep) (c # cs))
      else (let r = py_split sep cs in (c # hd r) # tl r))"

text \<open>\<^verbatim>\<open>xs[i]\<close> for a non-negative constant index.\<close>

definition py_index :: "'a list \<Rightarrow> nat \<Rightarrow> error + 'a" where
  "py_index xs i = (if i < length xs then Inr (xs ! i) else Inl IndexError)"

text \<open>
  The characters that \<^verbatim>\<open>str.rstrip()\<close> and \<^verbatim>\<open>int()\<close> treat as white space,
  within ASCII: tab, line feed, vertical tab, form feed, carriage return, the four
  separators 0x1C to 0x1F, and the space. Strings are byte lists here, so the white
  space and the digits of Unicode beyond ASCII are not modelled.
\<close>

definition is_space :: "char \<Rightarrow> bool" where
  "is_space c = (c \<in> set [CHR 0x09, CHR 0x0A, CHR 0x0B, CHR 0x0C, CHR 0x0D,
                           CHR 0x1C, CHR 0x1D, CHR 0x1E, CHR 0x1F, CHR 0x20])"

definition lstrip :: "string \<Rightarrow> string" where
  "lstrip s = dropWhile is_space s"

definition rstrip :: "string \<Rightarrow> string" where
  "rstrip s = rev (dropWhile is_space (rev s))"

definition is_digit :: "char \<Rightarrow> bool" where
  "is_digit c = (48 \<le> (of_char c :: nat) \<and> (of_char c :: nat) \<le> 57)"

definition digit_val :: "char \<Rightarrow> int" where
  "digit_val c = int (of_char c) - 48"

text \<open>
  \<^verbatim>\<open>int(s)\<close> on a string, base 10: white space is stripped on both sides, then an
  optional sign, then decimal digits, where a single underscore may stand between two
  digits. Anything else is a ValueError. (The limit on the number of digits that recent
  interpreters apply is not modelled.)
\<close>

fun parse_digits :: "int \<Rightarrow> string \<Rightarrow> error + int" where
  "parse_digits acc [] = Inr acc"
| "parse_digits acc [c] = (if is_digit c then Inr (10 * acc + digit_val c) else Inl ValueError)"
| "parse_digits acc (c # d # ds) =
     (if is_digit c then parse_digits (10 * acc + digit_val c) (d # ds)
      else if c = CHR ''_'' \<and> is_digit d then parse_digits (10 * acc + digit_val d) ds
      else Inl ValueError)"

definition parse_unsigned :: "string \<Rightarrow> error + int" where
  "parse_unsigned s =
     (case s of [] \<Rightarrow> Inl ValueError
      | d # ds \<Rightarrow> if is_digit d then parse_digits (digit_val d) ds else Inl ValueError)"

definition py_int :: "string \<Rightarrow> error + int" where
  "py_int s =
     (case lstrip (rstrip s) of [] \<Rightarrow> Inl ValueError
      | c # cs \<Rightarrow>
          if c = CHR ''-'' then (case parse_unsigned cs of Inl e \<Rightarrow> Inl e | Inr n \<Rightarrow> Inr (- n))
          else if c = CHR ''+'' then parse_unsigned cs
          else parse_unsigned (c # cs))"

section \<open>The Primer-Pair Resolver: getSchemeAmplicons\<close>

text \<open>
  One record of the primer scheme as \<^verbatim>\<open>read_bed_file\<close> returns it. That reader
  is imported from another module; the resolver takes its result, the ordered sequence
  of primer records, and reads the two fields below.
\<close>

record primer =
  Primer_ID :: string
  direction :: string

text \<open>
  The name under which a primer is counted (the body of the first loop). The index 0 of
  the source is \<open>hd\<close>: a split is never the empty list (\<open>py_split_nonempty\<close> below).
\<close>

definition amplicon_of :: "primer \<Rightarrow> string" where
  "amplicon_of p =
     (if direction p = ''+'' then hd (py_split ''_LEFT'' (Primer_ID p))
      else hd (py_split ''_RIGHT'' (Primer_ID p)))"

text \<open>The first loop: count the primers of each name.\<close>

fun count_primers :: "(string \<times> int) list \<Rightarrow> primer list \<Rightarrow> error + (string \<times> int) list" where
  "count_primers amplicons [] = Inr amplicons"
| "count_primers amplicons (p # ps) =
     (let amplicon = amplicon_of p;
          amplicons1 = (if dict_get amplicons amplicon = None
                        then dict_set amplicons amplicon 0 else amplicons)
      in case dict_incr amplicons1 amplicon of
           Inl e \<Rightarrow> Inl e
         | Inr amplicons2 \<Rightarrow> count_primers amplicons2 ps)"

definition amplicon_key :: "string \<Rightarrow> string" where
  "amplicon_key amplicon = amplicon @ ''_LEFT_'' @ amplicon @ ''_RIGHT''"

text \<open>
  The second loop, over the keys of \<open>amplicons\<close> in insertion order: a name that does
  not have two primers prints the diagnostic and exits, any other name gets its key with
  a zeroed counter.
\<close>

fun name_amplicons ::
  "(string \<times> int) list \<Rightarrow> (string \<times> int) list \<Rightarrow> string list \<Rightarrow> error + (string \<times> int) list" where
  "name_amplicons amplicons named_amplicons [] = Inr named_amplicons"
| "name_amplicons amplicons named_amplicons (amplicon # rest) =
     (case dict_get amplicons amplicon of
        None \<Rightarrow> Inl KeyError
      | Some n \<Rightarrow>
          if n \<noteq> 2 then Inl (SystemExit (''in correct numbers of primer for '' @ amplicon))
          else name_amplicons amplicons (dict_set named_amplicons (amplicon_key amplicon) 0) rest)"

definition getSchemeAmplicons :: "primer list \<Rightarrow> error + (string \<times> int) list" where
  "getSchemeAmplicons primer_scheme =
     (case count_primers [] primer_scheme of
        Inl e \<Rightarrow> Inl e
      | Inr amplicons \<Rightarrow> name_amplicons amplicons [] (dict_keys amplicons))"

section \<open>The Read Aggregator: getAmpliconCounts\<close>

text \<open>Sequencing of fallible steps: the first exception ends the computation.\<close>

definition and_then :: "error + 'a \<Rightarrow> ('a \<Rightarrow> error + 'b) \<Rightarrow> error + 'b" where
  "and_then r f = (case r of Inl e \<Rightarrow> Inl e | Inr x \<Rightarrow> f x)"

subsection \<open>The float arithmetic of the length filter\<close>

text \<open>
  The filter compares an integer with the float \<^verbatim>\<open>Alignment_Length_Threshold * rLen\<close>.
  A finite double is kept as a pair \<open>(m, e)\<close> standing for \<open>m * 2 ^ e\<close>, and the three
  operations that the comparison needs are written out with integer arithmetic:
  the conversion of an integer to the nearest double (ties to even, OverflowError from
  \<open>2 ^ 1024\<close> on), the correctly rounded product, and the exact comparison of an integer
  with a float. The product is never subnormal and cannot overflow here, since one
  factor is the constant 0.95 and the other an integer.
\<close>

type_synonym double = "int \<times> int"

fun bitlen :: "nat \<Rightarrow> nat" where
  "bitlen n = (if n = 0 then 0 else Suc (bitlen (n div 2)))"

declare bitlen.simps [simp del]

text \<open>Rounding a natural number to 53 significant bits, to nearest, ties to even.\<close>

definition round53 :: "nat \<Rightarrow> nat" where
  "round53 n =
     (let k = bitlen n in
      if k \<le> 53 then n
      else (let s = k - 53; q = n div 2 ^ s; r = n mod 2 ^ s; h = 2 ^ (s - 1)
            in (if h < r \<or> (r = h \<and> odd q) then q + 1 else q) * 2 ^ s))"

definition float_of_int :: "int \<Rightarrow> error + double" where
  "float_of_int n =
     (let a = round53 (nat \<bar>n\<bar>)
      in if 2 ^ 1024 \<le> a then Inl OverflowError else Inr (sgn n * int a, 0))"

definition float_mul :: "double \<Rightarrow> double \<Rightarrow> double" where
  "float_mul x y =
     (let m = fst x * fst y in (sgn m * int (round53 (nat \<bar>m\<bar>)), snd x + snd y))"

definition int_less_float :: "int \<Rightarrow> double \<Rightarrow> bool" where
  "int_less_float a x =
     (if 0 \<le> snd x then a < fst x * 2 ^ nat (snd x) else a * 2 ^ nat (- snd x) < fst x)"

text \<open>The double nearest to 0.95 is \<open>0x1.e666666666666p-1\<close>.\<close>

definition Alignment_Length_Threshold :: double where
  "Alignment_Length_Threshold = (8556839292003942, - 53)"

subsection \<open>Processing the report\<close>

text \<open>\<^verbatim>\<open>int(fields[i])\<close> (the list \<^verbatim>\<open>fields\<close> of the source is \<open>flds\<close>).\<close>

definition int_field :: "string list \<Rightarrow> nat \<Rightarrow> error + int" where
  "int_field flds i = and_then (py_index flds i) py_int"

text \<open>
  The body of the loop over the lines of the report. \<open>Inr amplicons\<close> with the
  dictionary as it was is the \<^verbatim>\<open>continue\<close> of the source.
\<close>

definition process_line :: "(string \<times> int) list \<Rightarrow> string \<Rightarrow> error + (string \<times> int) list" where
  "process_line amplicons l =
     (let flds = py_split [CHR 0x09] (rstrip l) in
      and_then (int_field flds 12) (\<lambda>paired.
        if paired \<noteq> 1 then Inr amplicons
        else
          and_then (int_field flds 11) (\<lambda>aEnd.
          and_then (int_field flds 10) (\<lambda>aStart.
          and_then (int_field flds 2) (\<lambda>rEnd.
          and_then (int_field flds 1) (\<lambda>rStart.
            let aLen = aEnd - aStart; rLen = rEnd - rStart in
            and_then (float_of_int rLen) (\<lambda>x.
              if int_less_float aLen (float_mul Alignment_Length_Threshold x) then Inr amplicons
              else
                and_then (py_index flds 3) (\<lambda>name.
                  if dict_get amplicons name = None
                  then Inl (SystemExit
                         (''amplicon in align_trim report but not in primer scheme '' @ name))
                  else dict_incr amplicons name))))))))"

fun process_lines :: "(string \<times> int) list \<Rightarrow> string list \<Rightarrow> error + (string \<times> int) list" where
  "process_lines amplicons [] = Inr amplicons"
| "process_lines amplicons (l # ls) =
     and_then (process_line amplicons l) (\<lambda>amplicons1. process_lines amplicons1 ls)"

text \<open>
  The report is the list of its lines, as iterating over the open file yields them.
  \<^verbatim>\<open>fh.readline()\<close> consumes the header, if there is one.
\<close>

definition getAmpliconCounts :: "(string \<times> int) list \<Rightarrow> string list \<Rightarrow> error + (string \<times> int) list" where
  "getAmpliconCounts amplicons align_trim_report = process_lines amplicons (drop 1 align_trim_report)"

section \<open>The variant report: getVCFreportInfo\<close>

text \<open>
  \<^verbatim>\<open>csv.DictReader\<close> yields one dictionary per data row, from column name to the
  text of the cell; the report is the list of these rows. Only the first is read, and
  \<^verbatim>\<open>next\<close> raises StopIteration when there is none.
\<close>

fun copy_stats :: "(string \<times> string) list \<Rightarrow> (string \<times> string) list \<Rightarrow> (string \<times> string) list" where
  "copy_stats stats [] = stats"
| "copy_stats stats ((key, val) # rest) =
     copy_stats (if key \<noteq> ''input VCF file'' then dict_set stats key val else stats) rest"

definition getVCFreportInfo :: "(string \<times> string) list list \<Rightarrow> error + (string \<times> string) list" where
  "getVCFreportInfo vcf_report_data =
     (case vcf_report_data of
        [] \<Rightarrow> Inl StopIteration
      | firstline # _ \<Rightarrow> Inr (copy_stats [] firstline))"

section \<open>The Coverage Classifier and the Report Builder: run\<close>

text \<open>
  The loop that renames the amplicons and counts the dropouts. The state is
  \<open>(readCount, dropouts, amplicon_renamed_counts)\<close>, and \<open>amplicon_index\<close> is
  the expression \<^verbatim>\<open>int(amplicon.split('_')[1])\<close>.
\<close>

definition amplicon_index :: "string \<Rightarrow> error + int" where
  "amplicon_index amplicon = and_then (py_index (py_split ''_'' amplicon) 1) py_int"

fun rename_counts ::
  "int \<Rightarrow> int \<times> int \<times> (int \<times> int) list \<Rightarrow> (string \<times> int) list
     \<Rightarrow> error + (int \<times> int \<times> (int \<times> int) list)" where
  "rename_counts min_depth st [] = Inr st"
| "rename_counts min_depth (readCount, dropouts, renamed) ((amplicon, count) # rest) =
     and_then (amplicon_index amplicon) (\<lambda>n.
       rename_counts min_depth
         (readCount + count,
          (if count < min_depth then dropouts + 1 else dropouts),
          dict_set renamed n count) rest)"

text \<open>A value of the stats table: a count of the program or a cell of the variant report.\<close>

datatype stat_value = IntV int | StrV string

fun add_stats :: "(string \<times> stat_value) list \<Rightarrow> (string \<times> string) list \<Rightarrow> (string \<times> stat_value) list" where
  "add_stats statsData [] = statsData"
| "add_stats statsData ((stat, val) # rest) = add_stats (dict_set statsData stat (StrV val)) rest"

text \<open>
  The two documents. The fixed presentation options of \<^verbatim>\<open>pconfig\<close> and the
  description text are left out; the reference line of the plot and the data are kept.
\<close>

record plot_template =
  plot_id :: string
  plot_section_name :: string
  plot_type :: string
  plot_line_value :: int
  plot_data :: "(string \<times> (int \<times> int) list) list"

record stats_template =
  stats_id :: string
  stats_section_name :: string
  stats_plot_type :: string
  stats_data :: "(string \<times> (string \<times> stat_value) list) list"

definition GetPlotDataTemplate :: "int \<Rightarrow> string \<Rightarrow> (int \<times> int) list \<Rightarrow> plot_template" where
  "GetPlotDataTemplate ampliconDropoutThreshold sample_name data =
     \<lparr>plot_id = ''custom_data_lineplot'',
      plot_section_name = ''ARTIC: Amplicon Coverage'',
      plot_type = ''linegraph'',
      plot_line_value = ampliconDropoutThreshold,
      plot_data = [(sample_name, data)]\<rparr>"

definition GetStatsTemplate :: "string \<Rightarrow> (string \<times> stat_value) list \<Rightarrow> stats_template" where
  "GetStatsTemplate sample_name data =
     \<lparr>stats_id = ''custom_data_json_table'',
      stats_section_name = ''ARTIC: General Stats'',
      stats_plot_type = ''table'',
      stats_data = [(sample_name, data)]\<rparr>"

text \<open>
  The arguments of a run, with each file replaced by its content: the primer records of
  the scheme, the lines of the align\_trim report, and the rows of the variant report
  when one is given.
\<close>

record args =
  scheme :: "primer list"
  align_report :: "string list"
  vcf_report :: "(string \<times> string) list list option"
  min_depth :: int
  sample :: string

text \<open>
  The result of a run is the pair of documents that it writes. The source writes the plot
  document before it reads the variant report; a run that fails there is an error here,
  with no document.
\<close>

definition run :: "args \<Rightarrow> error + (plot_template \<times> stats_template)" where
  "run a =
     and_then (getSchemeAmplicons (scheme a)) (\<lambda>amplicons.
     and_then (getAmpliconCounts amplicons (align_report a)) (\<lambda>amplicon_counts.
     and_then (rename_counts (min_depth a) (0, 0, []) amplicon_counts) (\<lambda>(readCount, dropouts, amplicon_renamed_counts).
       let amplicon_plot_template = GetPlotDataTemplate (min_depth a) (sample a) amplicon_renamed_counts;
           statsData = dict_set (dict_set [] ''# mapped reads'' (IntV readCount))
                         ''# low cov. amplicons'' (IntV dropouts)
       in and_then
            (case vcf_report a of
               None \<Rightarrow> Inr statsData
             | Some rows \<Rightarrow> and_then (getVCFreportInfo rows) (\<lambda>info. Inr (add_stats statsData info)))
            (\<lambda>statsData1. Inr (amplicon_plot_template, GetStatsTemplate (sample a) statsData1)))))"

section \<open>Example inputs\<close>

text \<open>
  A line of the align\_trim report, built from its cells: tab-separated, ended by a line
  feed. The example rows have a read spanning 100 to 500 (columns 1 and 2), so the
  amplicon length is 400 and the length filter asks for an aligned length of 380.
\<close>

definition report_line :: "string list \<Rightarrow> string" where
  "report_line cells =
     foldr (\<lambda>c s. c @ (if s = [] then [] else CHR 0x09 # s)) cells [] @ [CHR 0x0A]"

definition example_header :: string where
  "example_header = report_line
     [''QueryName'', ''ReferenceStart'', ''ReferenceEnd'', ''PrimerPair'', ''Primer1'',
      ''Primer1Start'', ''Primer2'', ''Primer2Start'', ''IsSecondary'', ''IsSupplementary'',
      ''Start'', ''End'', ''CorrectlyPaired'']"

definition example_row :: "string \<Rightarrow> string \<Rightarrow> string \<Rightarrow> string \<Rightarrow> string" where
  "example_row name aStart aEnd paired = report_line
     [''read'', ''100'', ''500'', name, ''L'', ''90'', ''R'', ''510'', ''0'', ''0'',
      aStart, aEnd, paired]"

text \<open>A scheme with the amplicons \<open>pre1\<close> and \<open>pre2\<close>, two primers each.\<close>

definition example_scheme :: "string \<Rightarrow> primer list" where
  "example_scheme pre =
     [\<lparr>Primer_ID = pre @ ''1_LEFT'', direction = ''+''\<rparr>,
      \<lparr>Primer_ID = pre @ ''1_RIGHT'', direction = ''-''\<rparr>,
      \<lparr>Primer_ID = pre @ ''2_LEFT'', direction = ''+''\<rparr>,
      \<lparr>Primer_ID = pre @ ''2_RIGHT'', direction = ''-''\<rparr>]"

text \<open>
  The report of the end-to-end example: three rows that count for the first amplicon, one
  for the second, one row with pairing flag 0 and one row whose aligned length 379 is
  below the threshold.
\<close>

definition example_report :: "string \<Rightarrow> string list" where
  "example_report pre =
     [example_header,
      example_row (amplicon_key (pre @ ''1'')) ''100'' ''500'' ''1'',
      example_row (amplicon_key (pre @ ''2'')) ''100'' ''500'' ''1'',
      example_row (amplicon_key (pre @ ''1'')) ''100'' ''500'' ''0'',
      example_row (amplicon_key (pre @ ''1'')) ''100'' ''479'' ''1'',
      example_row (amplicon_key (pre @ ''1'')) ''100'' ''480'' ''1'',
      example_row (amplicon_key (pre @ ''1'')) ''110'' ''500'' ''1'']"

text \<open>A scheme with two amplicons whose keys have the same second token.\<close>

definition colliding_scheme :: "primer list" where
  "colliding_scheme =
     [\<lparr>Primer_ID = ''a_1_LEFT'', direction = ''+''\<rparr>,
      \<lparr>Primer_ID = ''a_1_RIGHT'', direction = ''-''\<rparr>,
      \<lparr>Primer_ID = ''b_1_LEFT'', direction = ''+''\<rparr>,
      \<lparr>Primer_ID = ''b_1_RIGHT'', direction = ''-''\<rparr>]"

section \<open>Auxiliary notions for the proofs\<close>

text \<open>The value stored under a key, 0 when the key is absent.\<close>

definition dict_val :: "('k \<times> int) list \<Rightarrow> 'k \<Rightarrow> int" where
  "dict_val d k = (case dict_get d k of None \<Rightarrow> 0 | Some v \<Rightarrow> v)"

text \<open>What the second loop of the resolver builds when no name is refused.\<close>

definition zero_keys :: "(string \<times> int) list \<Rightarrow> string list \<Rightarrow> (string \<times> int) list" where
  "zero_keys named bs = foldl (\<lambda>acc b. dict_set acc (amplicon_key b) 0) named bs"

text \<open>The stats mapping of \<open>run\<close> before the variant report is added.\<close>

definition base_stats :: "int \<Rightarrow> int \<Rightarrow> (string \<times> stat_value) list" where
  "base_stats readCount dropouts =
     [(''# mapped reads'', IntV readCount), (''# low cov. amplicons'', IntV dropouts)]"

section \<open>Dictionaries: basic facts\<close>

lemma dict_get_None_iff: "dict_get d k = None \<longleftrightarrow> k \<notin> set (dict_keys d)"
  by (induction d) (force simp: dict_keys_def split: if_splits)+

lemma dict_get_set: "dict_get (dict_set d k v) k' = (if k' = k then Some v else dict_get d k')"
  by (induction d) auto

lemma dict_keys_set:
  "dict_keys (dict_set d k v) = (if k \<in> set (dict_keys d) then dict_keys d else dict_keys d @ [k])"
  by (induction d) (force simp: dict_keys_def)+

lemma dict_set_distinct: "distinct (dict_keys d) \<Longrightarrow> distinct (dict_keys (dict_set d k v))"
  by (simp add: dict_keys_set)

lemma dict_get_val: "k \<in> set (dict_keys d) \<Longrightarrow> dict_get d k = Some (dict_val d k)"
  by (cases "dict_get d k") (auto simp: dict_val_def dict_get_None_iff)

lemma dict_set_keys_present:
  "dict_get d k = Some c \<Longrightarrow> dict_keys (dict_set d k v) = dict_keys d"
  by (induction d) (auto simp: dict_keys_def split: if_splits)


lemma dict_set_fresh: "k \<notin> set (dict_keys d) \<Longrightarrow> dict_set d k v = d @ [(k, v)]"
  by (induction d) (auto simp: dict_keys_def)

lemma dict_keys_Nil: "dict_keys [] = []"
  by (simp add: dict_keys_def)

section \<open>Strings: basic facts\<close>


lemma py_split_char_notin: "x \<notin> set c \<Longrightarrow> py_split [x] c = [c]"
  by (induction c) auto

lemma py_split_char_append:
  "x \<notin> set c \<Longrightarrow> py_split [x] (c @ x # rest) = c # py_split [x] rest"
  by (induction c) auto


lemma rstrip_line_feed: "rstrip (s @ [CHR 0x0A]) = rstrip s"
  by (simp add: rstrip_def is_space_def)

lemma rstrip_no_space: "s \<noteq> [] \<Longrightarrow> \<not> is_space (last s) \<Longrightarrow> rstrip s = s"
  by (cases s rule: rev_cases) (auto simp: rstrip_def)




lemma py_int_examples:
  "py_int ''0'' = Inr 0" "py_int ''1'' = Inr 1" "py_int ''100'' = Inr 100" "py_int ''110'' = Inr 110"
  "py_int ''479'' = Inr 479" "py_int ''480'' = Inr 480" "py_int ''500'' = Inr 500"
  by (simp_all add: py_int_def lstrip_def rstrip_def is_space_def parse_unsigned_def is_digit_def digit_val_def)

section \<open>Sequencing: basic facts\<close>

lemma and_then_Inl [simp]: "and_then (Inl e) f = Inl e"
  by (simp add: and_then_def)

lemma and_then_Inr [simp]: "and_then (Inr x) f = f x"
  by (simp add: and_then_def)

lemma and_then_eq_Inr: "and_then r f = Inr y \<longleftrightarrow> (\<exists>x. r = Inr x \<and> f x = Inr y)"
  by (cases r) auto

section \<open>The Primer-Pair Resolver\<close>

lemma amplicon_key_inj: "amplicon_key a = amplicon_key b \<Longrightarrow> a = b"
proof -
  assume h: "amplicon_key a = amplicon_key b"
  then have "length (amplicon_key a) = length (amplicon_key b)" by simp
  then have "length a = length b" by (simp add: amplicon_key_def)
  with h show "a = b" by (simp add: amplicon_key_def)
qed

lemma count_primers_ok:
  "\<exists>d'. count_primers d ps = Inr d'
      \<and> set (dict_keys d') = set (dict_keys d) \<union> amplicon_of ` set ps
      \<and> (distinct (dict_keys d) \<longrightarrow> distinct (dict_keys d'))
      \<and> (\<forall>b. dict_val d' b = dict_val d b + int (count_list (map amplicon_of ps) b))"
proof (induction ps arbitrary: d)
  case Nil
  then show ?case by simp
next
  case (Cons p ps)
  let ?a = "amplicon_of p"
  let ?d1 = "if dict_get d ?a = None then dict_set d ?a 0 else d"
  obtain v where v: "dict_get ?d1 ?a = Some v" "v = dict_val d ?a"
    by (cases "dict_get d ?a") (auto simp: dict_get_set dict_val_def)
  let ?d2 = "dict_set ?d1 ?a (v + 1)"
  have step: "count_primers d (p # ps) = count_primers ?d2 ps"
    using v(1) by (simp add: dict_incr_def Let_def)
  have keys2: "set (dict_keys ?d2) = insert ?a (set (dict_keys d))"
    by (auto simp: dict_keys_set dict_get_None_iff)
  have dist2: "distinct (dict_keys d) \<Longrightarrow> distinct (dict_keys ?d2)"
    by (auto simp: dict_keys_set dict_get_None_iff)
  have val2: "dict_val ?d2 b = dict_val d b + (if b = ?a then 1 else 0)" for b
    using v by (auto simp: dict_val_def dict_get_set)
  from Cons.IH[of ?d2] obtain d' where d':
    "count_primers ?d2 ps = Inr d'"
    "set (dict_keys d') = set (dict_keys ?d2) \<union> amplicon_of ` set ps"
    "distinct (dict_keys ?d2) \<longrightarrow> distinct (dict_keys d')"
    "\<forall>b. dict_val d' b = dict_val ?d2 b + int (count_list (map amplicon_of ps) b)"
    by blast
  show ?case
  proof (intro exI conjI allI impI)
    show "count_primers d (p # ps) = Inr d'" using step d'(1) by simp
    show "set (dict_keys d') = set (dict_keys d) \<union> amplicon_of ` set (p # ps)"
      using d'(2) keys2 by auto
    show "distinct (dict_keys d')" if "distinct (dict_keys d)"
      using d'(3) dist2 that by blast
    show "dict_val d' b = dict_val d b + int (count_list (map amplicon_of (p # ps)) b)" for b
      using d'(4) val2[of b] by auto
  qed
qed

lemma zero_keys_keys: "set (dict_keys (zero_keys named bs)) = set (dict_keys named) \<union> amplicon_key ` set bs"
  unfolding zero_keys_def by (induction bs arbitrary: named) (auto simp: dict_keys_set)

lemma zero_keys_distinct: "distinct (dict_keys named) \<Longrightarrow> distinct (dict_keys (zero_keys named bs))"
  unfolding zero_keys_def by (induction bs arbitrary: named) (auto simp: dict_set_distinct)

lemma zero_keys_values:
  "\<forall>k \<in> set (dict_keys named). dict_get named k = Some 0
   \<Longrightarrow> \<forall>k \<in> set (dict_keys (zero_keys named bs)). dict_get (zero_keys named bs) k = Some 0"
  unfolding zero_keys_def
proof (induction bs arbitrary: named)
  case Nil
  then show ?case by simp
next
  case (Cons b bs)
  have "\<forall>k \<in> set (dict_keys (dict_set named (amplicon_key b) 0)). dict_get (dict_set named (amplicon_key b) 0) k = Some 0"
    using Cons.prems by (auto simp: dict_keys_set dict_get_set split: if_splits)
  from Cons.IH[OF this] show ?case by simp
qed

lemma name_amplicons_ok:
  "\<forall>k \<in> set bs. dict_get amplicons k = Some 2
   \<Longrightarrow> name_amplicons amplicons named bs = Inr (zero_keys named bs)"
  unfolding zero_keys_def by (induction bs arbitrary: named) auto

lemma name_amplicons_fail:
  "\<forall>k \<in> set bs. dict_get amplicons k \<noteq> None \<Longrightarrow> \<exists>k \<in> set bs. dict_get amplicons k \<noteq> Some 2
   \<Longrightarrow> \<exists>b \<in> set bs. dict_get amplicons b \<noteq> Some 2 \<and>
         name_amplicons amplicons named bs = Inl (SystemExit (''in correct numbers of primer for '' @ b))"
proof (induction bs arbitrary: named)
  case Nil
  then show ?case by simp
next
  case (Cons b bs)
  from Cons.prems(1) obtain n where n: "dict_get amplicons b = Some n" by auto
  show ?case
  proof (cases "n = 2")
    case False
    with n show ?thesis by auto
  next
    case True
    with n Cons.prems have "\<exists>k \<in> set bs. dict_get amplicons k \<noteq> Some 2" by auto
    moreover from Cons.prems have "\<forall>k \<in> set bs. dict_get amplicons k \<noteq> None" by auto
    ultimately obtain c where "c \<in> set bs" "dict_get amplicons c \<noteq> Some 2"
      "name_amplicons amplicons (dict_set named (amplicon_key b) 0) bs
         = Inl (SystemExit (''in correct numbers of primer for '' @ c))"
      using Cons.IH by blast
    with n True show ?thesis by auto
  qed
qed

lemma getSchemeAmplicons_result:
  "(if \<forall>b \<in> amplicon_of ` set ps. count_list (map amplicon_of ps) b = 2
    then \<exists>r. getSchemeAmplicons ps = Inr r
            \<and> distinct (dict_keys r)
            \<and> set (dict_keys r) = amplicon_key ` amplicon_of ` set ps
            \<and> length r = card (amplicon_of ` set ps)
            \<and> (\<forall>k \<in> set (dict_keys r). dict_get r k = Some 0)
    else \<exists>b \<in> amplicon_of ` set ps. count_list (map amplicon_of ps) b \<noteq> 2
            \<and> getSchemeAmplicons ps = Inl (SystemExit (''in correct numbers of primer for '' @ b)))"
proof -
  obtain d where d: "count_primers [] ps = Inr d"
    "set (dict_keys d) = amplicon_of ` set ps"
    "distinct (dict_keys d)"
    "\<forall>b. dict_val d b = int (count_list (map amplicon_of ps) b)"
    using count_primers_ok[of "[]" ps] by (auto simp: dict_keys_def dict_val_def)
  have get: "dict_get d b = Some (int (count_list (map amplicon_of ps) b))"
    if "b \<in> amplicon_of ` set ps" for b
    using dict_get_val[of b d] d(2,4) that by simp
  have res: "getSchemeAmplicons ps = name_amplicons d [] (dict_keys d)"
    using d(1) by (simp add: getSchemeAmplicons_def)
  show ?thesis
  proof (cases "\<forall>b \<in> amplicon_of ` set ps. count_list (map amplicon_of ps) b = 2")
    case True
    then have "\<forall>k \<in> set (dict_keys d). dict_get d k = Some 2"
      using get d(2) by auto
    then have r: "getSchemeAmplicons ps = Inr (zero_keys [] (dict_keys d))"
      using res name_amplicons_ok by simp
    let ?r = "zero_keys [] (dict_keys d)"
    have k: "set (dict_keys ?r) = amplicon_key ` amplicon_of ` set ps"
      using zero_keys_keys[of "[]" "dict_keys d"] d(2) by (simp add: dict_keys_def)
    have di: "distinct (dict_keys ?r)"
      by (rule zero_keys_distinct) (simp add: dict_keys_def)
    have inj: "inj_on amplicon_key (amplicon_of ` set ps)"
      by (rule inj_onI) (rule amplicon_key_inj)
    have "length ?r = length (dict_keys ?r)" by (simp add: dict_keys_def)
    also have "\<dots> = card (set (dict_keys ?r))" using di by (simp add: distinct_card)
    also have "\<dots> = card (amplicon_of ` set ps)" using k inj by (simp add: card_image)
    finally have len: "length ?r = card (amplicon_of ` set ps)" .
    have z: "\<forall>k \<in> set (dict_keys ?r). dict_get ?r k = Some 0"
      by (rule zero_keys_values) (simp add: dict_keys_def)
    from True r k di len z show ?thesis by simp
  next
    case False
    then obtain b where b: "b \<in> amplicon_of ` set ps" "count_list (map amplicon_of ps) b \<noteq> 2" by blast
    then have "\<exists>k \<in> set (dict_keys d). dict_get d k \<noteq> Some 2"
      using get d(2) by auto
    moreover have "\<forall>k \<in> set (dict_keys d). dict_get d k \<noteq> None"
      by (simp add: dict_get_None_iff)
    ultimately obtain c where c: "c \<in> set (dict_keys d)" "dict_get d c \<noteq> Some 2"
      "name_amplicons d [] (dict_keys d) = Inl (SystemExit (''in correct numbers of primer for '' @ c))"
      using name_amplicons_fail by blast
    then have "count_list (map amplicon_of ps) c \<noteq> 2" using get d(2) by auto
    with c d(2) res False show ?thesis by auto
  qed
qed


lemma getSchemeAmplicons_ok:
  assumes "\<forall>b \<in> amplicon_of ` set ps. count_list (map amplicon_of ps) b = 2"
  shows "\<exists>r. getSchemeAmplicons ps = Inr r
            \<and> distinct (dict_keys r)
            \<and> set (dict_keys r) = amplicon_key ` amplicon_of ` set ps
            \<and> length r = card (amplicon_of ` set ps)
            \<and> (\<forall>k \<in> set (dict_keys r). dict_get r k = Some 0)"
  using getSchemeAmplicons_result[of ps] assms by (simp only: if_True)

lemma getSchemeAmplicons_fail:
  assumes "\<not> (\<forall>b \<in> amplicon_of ` set ps. count_list (map amplicon_of ps) b = 2)"
  shows "\<exists>b \<in> amplicon_of ` set ps. count_list (map amplicon_of ps) b \<noteq> 2
            \<and> getSchemeAmplicons ps = Inl (SystemExit (''in correct numbers of primer for '' @ b))"
  using getSchemeAmplicons_result[of ps] assms by (simp only: if_False)



text \<open>
  Claim C6, as the code has it. The resolver counts the primers of a name whatever their
  directions: a scheme in which some name does not have exactly two primers is refused
  with the diagnostic for such a name. Directions are not compared, and the last theorem
  shows a name with two primers of direction \<open>+\<close> and none of direction \<open>-\<close> accepted.
\<close>
theorem getSchemeAmplicons_wrong_count:
  "p \<in> set ps \<Longrightarrow> count_list (map amplicon_of ps) (amplicon_of p) \<noteq> 2
   \<Longrightarrow> \<exists>b \<in> amplicon_of ` set ps. count_list (map amplicon_of ps) b \<noteq> 2
         \<and> getSchemeAmplicons ps = Inl (SystemExit (''in correct numbers of primer for '' @ b))"
proof -
  assume "p \<in> set ps" "count_list (map amplicon_of ps) (amplicon_of p) \<noteq> 2"
  then have "\<not> (\<forall>b \<in> amplicon_of ` set ps. count_list (map amplicon_of ps) b = 2)" by blast
  then show ?thesis by (rule getSchemeAmplicons_fail)
qed

theorem getSchemeAmplicons_wrong_count_witness:
  "\<exists>b. getSchemeAmplicons [\<lparr>Primer_ID = ''x_1_LEFT'', direction = ''+''\<rparr>]
        = Inl (SystemExit (''in correct numbers of primer for '' @ b))"
proof -
  let ?p = "\<lparr>Primer_ID = ''x_1_LEFT'', direction = ''+''\<rparr>"
  have "count_list (map amplicon_of [?p]) (amplicon_of ?p) \<noteq> 2" by simp
  from getSchemeAmplicons_wrong_count[of ?p "[?p]", OF _ this] show ?thesis by auto
qed

text \<open>Two primers of the same direction under one name: the key is emitted.\<close>

theorem getSchemeAmplicons_same_direction:
  "getSchemeAmplicons
     [\<lparr>Primer_ID = ''x_1_LEFT'', direction = ''+''\<rparr>,
      \<lparr>Primer_ID = ''x_1_LEFT_alt1'', direction = ''+''\<rparr>]
   = Inr [(''x_1_LEFT_x_1_RIGHT'', 0)]"
  by (simp add: getSchemeAmplicons_def amplicon_of_def dict_incr_def dict_keys_def amplicon_key_def)

section \<open>The Read Aggregator\<close>


lemma process_line_paired:
  assumes "int_field (py_split [CHR 0x09] (rstrip l)) 12 = Inr 1"
    and "int_field (py_split [CHR 0x09] (rstrip l)) 11 = Inr aEnd"
    and "int_field (py_split [CHR 0x09] (rstrip l)) 10 = Inr aStart"
    and "int_field (py_split [CHR 0x09] (rstrip l)) 2 = Inr rEnd"
    and "int_field (py_split [CHR 0x09] (rstrip l)) 1 = Inr rStart"
    and "float_of_int (rEnd - rStart) = Inr x"
    and "py_index (py_split [CHR 0x09] (rstrip l)) 3 = Inr name"
  shows "process_line amplicons l =
     (if int_less_float (aEnd - aStart) (float_mul Alignment_Length_Threshold x) then Inr amplicons
      else if dict_get amplicons name = None
      then Inl (SystemExit (''amplicon in align_trim report but not in primer scheme '' @ name))
      else dict_incr amplicons name)"
  using assms by (simp add: process_line_def)

lemma process_line_cases:
  assumes "process_line amplicons l = Inr a'"
  shows "a' = amplicons \<or>
         (\<exists>name c. py_index (py_split [CHR 0x09] (rstrip l)) 3 = Inr name
            \<and> dict_get amplicons name = Some c \<and> a' = dict_set amplicons name (c + 1))"
  using assms
  by (auto simp: process_line_def Let_def and_then_eq_Inr dict_incr_def split: if_splits option.splits)

lemma process_line_keys:
  "process_line amplicons l = Inr a' \<Longrightarrow> dict_keys a' = dict_keys amplicons"
  using process_line_cases[of amplicons l a'] by (auto simp: dict_set_keys_present)

lemma process_lines_keys:
  "process_lines amplicons ls = Inr a' \<Longrightarrow> dict_keys a' = dict_keys amplicons"
proof (induction ls arbitrary: amplicons)
  case Nil
  then show ?case by simp
next
  case (Cons l ls)
  from Cons.prems obtain a1 where a1: "process_line amplicons l = Inr a1" "process_lines a1 ls = Inr a'"
    by (auto simp: and_then_eq_Inr)
  from Cons.IH[OF a1(2)] process_line_keys[OF a1(1)] show ?case by simp
qed

lemma getAmpliconCounts_keys:
  "getAmpliconCounts amplicons report = Inr a' \<Longrightarrow> dict_keys a' = dict_keys amplicons"
  unfolding getAmpliconCounts_def by (rule process_lines_keys)

lemma example_row_fields:
  assumes "CHR 0x09 \<notin> set name" "CHR 0x09 \<notin> set aStart" "CHR 0x09 \<notin> set aEnd"
    "CHR 0x09 \<notin> set paired" "paired \<noteq> []" "\<not> is_space (last paired)"
  shows "py_split [CHR 0x09] (rstrip (example_row name aStart aEnd paired)) =
     [''read'', ''100'', ''500'', name, ''L'', ''90'', ''R'', ''510'', ''0'', ''0'',
      aStart, aEnd, paired]"
proof -
  let ?tail = "name @ CHR 0x09 # ''L'' @ CHR 0x09 # ''90'' @ CHR 0x09 # ''R'' @ CHR 0x09 # ''510''
      @ CHR 0x09 # ''0'' @ CHR 0x09 # ''0'' @ CHR 0x09 # aStart @ CHR 0x09 # aEnd @ CHR 0x09 # paired"
  let ?s = "''read'' @ CHR 0x09 # ''100'' @ CHR 0x09 # ''500'' @ CHR 0x09 # ?tail"
  have row: "example_row name aStart aEnd paired = ?s @ [CHR 0x0A]"
    using assms(5) by (simp add: example_row_def report_line_def)
  have "last ?s = last paired" using assms(5) by simp
  then have "rstrip ?s = ?s" using assms(6) by (intro rstrip_no_space) simp_all
  then have strip: "rstrip (example_row name aStart aEnd paired) = ?s"
    unfolding row rstrip_line_feed .
  have "py_split [CHR 0x09] ?s =
     ''read'' # ''100'' # ''500'' # name # ''L'' # ''90'' # ''R'' # ''510'' # ''0'' # ''0'' #
      aStart # aEnd # [paired]"
    using assms(1-4)
    by (simp add: py_split_char_append py_split_char_notin del: py_split.simps append.simps)
  with strip show ?thesis by simp
qed

lemma float_400: "float_of_int 400 = Inr (400, 0)"
  by (simp add: float_of_int_def round53_def bitlen.simps)

lemma less_threshold_400:
  "int_less_float a (float_mul Alignment_Length_Threshold (400, 0)) \<longleftrightarrow> a < 380"
  by (simp add: int_less_float_def float_mul_def Alignment_Length_Threshold_def round53_def
      bitlen.simps Let_def)

lemma process_example_row:
  assumes "CHR 0x09 \<notin> set name" "CHR 0x09 \<notin> set aStart" "CHR 0x09 \<notin> set aEnd"
    "CHR 0x09 \<notin> set paired" "paired \<noteq> []" "\<not> is_space (last paired)"
  shows "process_line amplicons (example_row name aStart aEnd paired) =
     and_then (py_int paired) (\<lambda>f.
       if f \<noteq> 1 then Inr amplicons
       else and_then (py_int aEnd) (\<lambda>e. and_then (py_int aStart) (\<lambda>s.
         if e - s < 380 then Inr amplicons
         else if dict_get amplicons name = None
         then Inl (SystemExit (''amplicon in align_trim report but not in primer scheme '' @ name))
         else dict_incr amplicons name)))"
  unfolding process_line_def example_row_fields[OF assms(1-6)]
  by (cases "py_int paired"; cases "py_int aEnd"; cases "py_int aStart")
     (simp_all add: Let_def int_field_def py_index_def py_int_examples float_400 less_threshold_400)

lemma tab_free_key: "CHR 0x09 \<notin> set b \<Longrightarrow> CHR 0x09 \<notin> set (amplicon_key b)"
  by (simp add: amplicon_key_def)

lemma amplicon_key_eq [simp]: "amplicon_key a = amplicon_key b \<longleftrightarrow> a = b"
  using amplicon_key_inj by blast

lemma example_counts:
  assumes "CHR 0x09 \<notin> set pre"
  shows "getAmpliconCounts [(amplicon_key (pre @ ''1''), 0), (amplicon_key (pre @ ''2''), 0)]
           (example_report pre)
         = Inr [(amplicon_key (pre @ ''1''), 3), (amplicon_key (pre @ ''2''), 1)]"
proof -
  have t: "CHR 0x09 \<notin> set (amplicon_key (pre @ ''1''))" "CHR 0x09 \<notin> set (amplicon_key (pre @ ''2''))"
    using assms by (simp_all add: tab_free_key)
  show ?thesis
    unfolding getAmpliconCounts_def example_report_def
    by (simp add: process_example_row t is_space_def py_int_examples dict_incr_def)
qed

lemma example_scheme_x: "getSchemeAmplicons (example_scheme ''x_'')
   = Inr [(amplicon_key ''x_1'', 0), (amplicon_key ''x_2'', 0)]"
  by (simp add: getSchemeAmplicons_def example_scheme_def amplicon_of_def dict_incr_def dict_keys_def amplicon_key_def)

lemma example_scheme_plain: "getSchemeAmplicons (example_scheme '''')
   = Inr [(amplicon_key ''1'', 0), (amplicon_key ''2'', 0)]"
  by (simp add: getSchemeAmplicons_def example_scheme_def amplicon_of_def dict_incr_def dict_keys_def amplicon_key_def)

lemma amplicon_index_examples:
  "amplicon_index (amplicon_key ''x_1'') = Inr 1"
  "amplicon_index (amplicon_key ''x_2'') = Inr 2"
  "amplicon_index (amplicon_key ''1'') = Inl ValueError"
  by (simp_all add: amplicon_index_def amplicon_key_def py_index_def py_int_def lstrip_def rstrip_def
      is_space_def parse_unsigned_def is_digit_def digit_val_def)

text \<open>
  Claim C2, as the code has it. The end-to-end example gives the counts \<open>{1: 3, 2: 1}\<close>,
  4 mapped reads and 1 amplicon of low coverage when the amplicons are named \<open>x_1\<close> and
  \<open>x_2\<close>, so that the second token of each key is its number. With the names \<open>1\<close> and
  \<open>2\<close> of the claim the second token of the key \<open>1_LEFT_1_RIGHT\<close> is \<open>LEFT\<close>, and the
  run ends in a ValueError after the counting: this is the second theorem.
\<close>

theorem run_example:
  "run \<lparr>scheme = example_scheme ''x_'', align_report = example_report ''x_'',
        vcf_report = None, min_depth = 2, sample = s\<rparr>
   = Inr (GetPlotDataTemplate 2 s [(1, 3), (2, 1)],
          GetStatsTemplate s [(''# mapped reads'', IntV 4), (''# low cov. amplicons'', IntV 1)])"
proof -
  have "getAmpliconCounts [(amplicon_key ''x_1'', 0), (amplicon_key ''x_2'', 0)] (example_report ''x_'')
         = Inr [(amplicon_key ''x_1'', 3), (amplicon_key ''x_2'', 1)]"
    using example_counts[of "''x_''"] by simp
  then show ?thesis
    by (simp add: run_def example_scheme_x amplicon_index_examples)
qed

text \<open>The same scheme and report with the amplicons named \<open>1\<close> and \<open>2\<close>.\<close>

theorem run_example_plain_names:
  "run \<lparr>scheme = example_scheme '''', align_report = example_report '''',
        vcf_report = None, min_depth = 2, sample = ''sample1''\<rparr>
   = Inl ValueError"
proof -
  have "getAmpliconCounts [(amplicon_key ''1'', 0), (amplicon_key ''2'', 0)] (example_report '''')
         = Inr [(amplicon_key ''1'', 3), (amplicon_key ''2'', 1)]"
    using example_counts[of "''''"] by simp
  then show ?thesis
    by (simp add: run_def example_scheme_plain amplicon_index_examples)
qed

subsection \<open>The length filter in exact arithmetic\<close>









text \<open>
  Beyond that range the rounding shows: with an amplicon length of 471273263005359 an
  aligned length of 447709599855091, which is below 95 percent of it, passes the filter.
\<close>

lemma length_filter_beyond_range:
  "\<not> int_less_float 447709599855091 (float_mul Alignment_Length_Threshold (471273263005359, 0))
   \<and> 20 * 447709599855091 < 19 * (471273263005359::int)"
  by (simp add: int_less_float_def float_mul_def Alignment_Length_Threshold_def round53_def
      bitlen.simps Let_def)


lemma example_row_int_fields:
  assumes "CHR 0x09 \<notin> set name"
  shows "int_field (py_split [CHR 0x09] (rstrip (example_row name ''100'' ''500'' ''1''))) 12 = Inr 1"
    "int_field (py_split [CHR 0x09] (rstrip (example_row name ''100'' ''500'' ''1''))) 11 = Inr 500"
    "int_field (py_split [CHR 0x09] (rstrip (example_row name ''100'' ''500'' ''1''))) 10 = Inr 100"
    "int_field (py_split [CHR 0x09] (rstrip (example_row name ''100'' ''500'' ''1''))) 2 = Inr 500"
    "int_field (py_split [CHR 0x09] (rstrip (example_row name ''100'' ''500'' ''1''))) 1 = Inr 100"
    "py_index (py_split [CHR 0x09] (rstrip (example_row name ''100'' ''500'' ''1''))) 3 = Inr name"
  using assms
  by (simp_all add: example_row_fields is_space_def int_field_def py_index_def py_int_examples)



text \<open>
  Claim C8, as the code has it. Whatever prefix of the report has been processed, the
  keys of the mapping are those it started with; a line that changes the mapping adds one
  to the count of the amplicon it names, a key of the mapping, and leaves every other
  count alone; a line that passes both filters and names an amplicon that is not a key
  ends the run with the diagnostic, and no key is inserted. A line that fails a filter
  is skipped before its amplicon name is looked at, so such a line may name an amplicon
  that is not a key without any error: the second theorem below.
\<close>
theorem getAmpliconCounts_keys_fixed:
  "(\<forall>n a'. process_lines amplicons (take n (drop 1 report)) = Inr a'
        \<longrightarrow> dict_keys a' = dict_keys amplicons)
   \<and> (\<forall>a'. getAmpliconCounts amplicons report = Inr a' \<longrightarrow> dict_keys a' = dict_keys amplicons)
   \<and> (\<forall>l a'. process_line amplicons l = Inr a' \<longrightarrow>
         a' = amplicons \<or>
         (\<exists>name c. py_index (py_split [CHR 0x09] (rstrip l)) 3 = Inr name
            \<and> dict_get amplicons name = Some c
            \<and> a' = dict_set amplicons name (c + 1)
            \<and> dict_get a' name = Some (c + 1)
            \<and> (\<forall>k. k \<noteq> name \<longrightarrow> dict_get a' k = dict_get amplicons k)))
   \<and> (\<forall>l aEnd aStart rEnd rStart x name.
         int_field (py_split [CHR 0x09] (rstrip l)) 12 = Inr 1
       \<and> int_field (py_split [CHR 0x09] (rstrip l)) 11 = Inr aEnd
       \<and> int_field (py_split [CHR 0x09] (rstrip l)) 10 = Inr aStart
       \<and> int_field (py_split [CHR 0x09] (rstrip l)) 2 = Inr rEnd
       \<and> int_field (py_split [CHR 0x09] (rstrip l)) 1 = Inr rStart
       \<and> float_of_int (rEnd - rStart) = Inr x
       \<and> \<not> int_less_float (aEnd - aStart) (float_mul Alignment_Length_Threshold x)
       \<and> py_index (py_split [CHR 0x09] (rstrip l)) 3 = Inr name
       \<and> dict_get amplicons name = None
       \<longrightarrow> process_line amplicons l =
             Inl (SystemExit (''amplicon in align_trim report but not in primer scheme '' @ name)))"
proof (intro conjI allI impI)
  fix n a' assume "process_lines amplicons (take n (drop 1 report)) = Inr a'"
  then show "dict_keys a' = dict_keys amplicons" by (rule process_lines_keys)
next
  fix a' assume "getAmpliconCounts amplicons report = Inr a'"
  then show "dict_keys a' = dict_keys amplicons" by (rule getAmpliconCounts_keys)
next
  fix l a' assume "process_line amplicons l = Inr a'"
  from process_line_cases[OF this]
  show "a' = amplicons \<or>
         (\<exists>name c. py_index (py_split [CHR 0x09] (rstrip l)) 3 = Inr name
            \<and> dict_get amplicons name = Some c
            \<and> a' = dict_set amplicons name (c + 1)
            \<and> dict_get a' name = Some (c + 1)
            \<and> (\<forall>k. k \<noteq> name \<longrightarrow> dict_get a' k = dict_get amplicons k))"
    by (auto simp: dict_get_set)
next
  fix l aEnd aStart rEnd rStart x name
  assume h: "int_field (py_split [CHR 0x09] (rstrip l)) 12 = Inr 1
       \<and> int_field (py_split [CHR 0x09] (rstrip l)) 11 = Inr aEnd
       \<and> int_field (py_split [CHR 0x09] (rstrip l)) 10 = Inr aStart
       \<and> int_field (py_split [CHR 0x09] (rstrip l)) 2 = Inr rEnd
       \<and> int_field (py_split [CHR 0x09] (rstrip l)) 1 = Inr rStart
       \<and> float_of_int (rEnd - rStart) = Inr x
       \<and> \<not> int_less_float (aEnd - aStart) (float_mul Alignment_Length_Threshold x)
       \<and> py_index (py_split [CHR 0x09] (rstrip l)) 3 = Inr name
       \<and> dict_get amplicons name = None"
  have "process_line amplicons l =
     (if int_less_float (aEnd - aStart) (float_mul Alignment_Length_Threshold x) then Inr amplicons
      else if dict_get amplicons name = None
      then Inl (SystemExit (''amplicon in align_trim report but not in primer scheme '' @ name))
      else dict_incr amplicons name)"
    by (rule process_line_paired) (use h in blast)+
  with h show "process_line amplicons l =
             Inl (SystemExit (''amplicon in align_trim report but not in primer scheme '' @ name))"
    by simp
qed

text \<open>A line with pairing flag 0 whose amplicon is not in the mapping: skipped, no error.\<close>

theorem process_line_filtered_absent_amplicon:
  "py_index (py_split [CHR 0x09] (rstrip (example_row (amplicon_key ''x_9'') ''100'' ''500'' ''0''))) 3
     = Inr (amplicon_key ''x_9'')
   \<and> dict_get [(amplicon_key ''x_1'', 0::int)] (amplicon_key ''x_9'') = None
   \<and> process_line [(amplicon_key ''x_1'', 0)]
        (example_row (amplicon_key ''x_9'') ''100'' ''500'' ''0'')
      = Inr [(amplicon_key ''x_1'', 0)]"
proof -
  have t: "CHR 0x09 \<notin> set (amplicon_key ''x_9'')" by (simp add: amplicon_key_def)
  have "process_line [(amplicon_key ''x_1'', 0)]
        (example_row (amplicon_key ''x_9'') ''100'' ''500'' ''0'')
      = Inr [(amplicon_key ''x_1'', 0)]"
    using t by (simp add: process_example_row is_space_def py_int_examples)
  moreover have "py_index (py_split [CHR 0x09] (rstrip (example_row (amplicon_key ''x_9'') ''100'' ''500'' ''0''))) 3
     = Inr (amplicon_key ''x_9'')"
    using t by (simp add: example_row_fields is_space_def py_index_def)
  ultimately show ?thesis by simp
qed

theorem getAmpliconCounts_keys_fixed_witness:
  "(\<exists>a'. getAmpliconCounts [(amplicon_key ''x_1'', 0), (amplicon_key ''x_2'', 0)]
            (example_report ''x_'') = Inr a'
         \<and> dict_keys a' = [amplicon_key ''x_1'', amplicon_key ''x_2''])
   \<and> process_line [(amplicon_key ''x_1'', 0)]
        (example_row (amplicon_key ''x_9'') ''100'' ''500'' ''1'')
      = Inl (SystemExit (''amplicon in align_trim report but not in primer scheme ''
                           @ amplicon_key ''x_9''))"
proof -
  let ?A = "[(amplicon_key ''x_1'', 0::int), (amplicon_key ''x_2'', 0)]"
  have c: "getAmpliconCounts ?A (example_report ''x_'')
         = Inr [(amplicon_key ''x_1'', 3), (amplicon_key ''x_2'', 1)]"
    using example_counts[of "''x_''"] by simp
  have 1: "\<exists>a'. getAmpliconCounts ?A (example_report ''x_'') = Inr a'
         \<and> dict_keys a' = [amplicon_key ''x_1'', amplicon_key ''x_2'']"
    using c getAmpliconCounts_keys_fixed[of ?A "example_report ''x_''"]
    by (simp add: dict_keys_def)
  have t: "CHR 0x09 \<notin> set (amplicon_key ''x_9'')" by (simp add: amplicon_key_def)
  note f = example_row_int_fields[OF t]
  have fl: "float_of_int (500 - 100) = Inr (400, 0)" using float_400 by simp
  have nl: "\<not> int_less_float (500 - 100) (float_mul Alignment_Length_Threshold (400, 0))"
    by (simp add: less_threshold_400)
  have g: "dict_get [(amplicon_key ''x_1'', 0::int)] (amplicon_key ''x_9'') = None" by simp
  have 2: "process_line [(amplicon_key ''x_1'', 0)]
        (example_row (amplicon_key ''x_9'') ''100'' ''500'' ''1'')
      = Inl (SystemExit (''amplicon in align_trim report but not in primer scheme ''
                           @ amplicon_key ''x_9''))"
    using getAmpliconCounts_keys_fixed[of "[(amplicon_key ''x_1'', 0)]" "[]"] f fl nl g
    by blast
  from 1 2 show ?thesis by blast
qed

section \<open>The Coverage Classifier and the Report Builder\<close>

lemma rename_counts_totals:
  "rename_counts md (rc, dr, ren) counts = Inr (rc', dr', ren') \<Longrightarrow>
     rc' = rc + sum_list (dict_values counts)
   \<and> dr' = dr + int (length (filter (\<lambda>kc. snd kc < md) counts))"
proof (induction counts arbitrary: rc dr ren)
  case Nil
  then show ?case by (simp add: dict_values_def)
next
  case (Cons kc counts)
  obtain k c where kc: "kc = (k, c)" by (cases kc)
  from Cons.prems obtain n where n: "amplicon_index k = Inr n"
    "rename_counts md (rc + c, (if c < md then dr + 1 else dr), dict_set ren n c) counts
       = Inr (rc', dr', ren')"
    unfolding kc by (auto simp: and_then_eq_Inr)
  from Cons.IH[OF n(2)] show ?case
    unfolding kc by (simp add: dict_values_def)
qed


lemma rename_counts_injective:
  assumes "rename_counts md (rc, dr, ren) counts = Inr (rc', dr', ren')"
    and "distinct (dict_keys counts)"
    and "inj_on amplicon_index (set (dict_keys counts))"
    and "\<forall>k \<in> set (dict_keys counts). \<forall>n. amplicon_index k = Inr n \<longrightarrow> n \<notin> set (dict_keys ren)"
  shows "map (\<lambda>(n, c). (Inr n, c)) ren' =
         map (\<lambda>(n, c). (Inr n, c)) ren @ map (\<lambda>(k, c). (amplicon_index k, c)) counts"
  using assms
proof (induction counts arbitrary: rc dr ren)
  case Nil
  then show ?case by simp
next
  case (Cons kc counts)
  obtain k c where kc: "kc = (k, c)" by (cases kc)
  from Cons.prems(1) obtain n where n: "amplicon_index k = Inr n"
    "rename_counts md (rc + c, (if c < md then dr + 1 else dr), dict_set ren n c) counts
       = Inr (rc', dr', ren')"
    unfolding kc by (auto simp: and_then_eq_Inr)
  have fresh: "n \<notin> set (dict_keys ren)"
    using Cons.prems(4) n(1) by (simp add: kc dict_keys_def)
  then have set: "dict_set ren n c = ren @ [(n, c)]" by (rule dict_set_fresh)
  have d: "distinct (dict_keys counts)" using Cons.prems(2) by (simp add: kc dict_keys_def)
  have i: "inj_on amplicon_index (set (dict_keys counts))"
    using Cons.prems(3) by (simp add: kc dict_keys_def)
  have knot: "k \<notin> set (dict_keys counts)" using Cons.prems(2) by (simp add: kc dict_keys_def)
  have f: "\<forall>k' \<in> set (dict_keys counts). \<forall>m. amplicon_index k' = Inr m
             \<longrightarrow> m \<notin> set (dict_keys (dict_set ren n c))"
  proof (intro ballI allI impI)
    fix k' m assume k': "k' \<in> set (dict_keys counts)" and m: "amplicon_index k' = Inr m"
    have "k' \<in> set (dict_keys (kc # counts))" using k' by (simp add: dict_keys_def)
    with Cons.prems(4) m have "m \<notin> set (dict_keys ren)" by blast
    moreover have "m \<noteq> n"
    proof
      assume "m = n"
      with m n(1) have "amplicon_index k' = amplicon_index k" by simp
      moreover have "k' \<in> set (dict_keys (kc # counts))" "k \<in> set (dict_keys (kc # counts))"
        using k' by (simp_all add: kc dict_keys_def)
      ultimately have "k' = k" using Cons.prems(3) by (meson inj_onD)
      with k' knot show False by simp
    qed
    ultimately show "m \<notin> set (dict_keys (dict_set ren n c))"
      by (simp add: set dict_keys_def)
  qed
  from Cons.IH[OF n(2) d i f] show ?case
    unfolding kc set using n(1) by simp
qed

lemma copy_stats_keys:
  "set (dict_keys (copy_stats stats row)) =
     set (dict_keys stats) \<union> (set (dict_keys row) - {''input VCF file''})"
proof (induction row arbitrary: stats)
  case Nil
  then show ?case by (simp add: dict_keys_def)
next
  case (Cons kv row)
  obtain k v where kv: "kv = (k, v)" by (cases kv)
  show ?case unfolding kv
    by (simp add: Cons.IH dict_keys_set) (auto simp: dict_keys_def)
qed

lemma copy_stats_distinct:
  "distinct (dict_keys stats) \<Longrightarrow> distinct (dict_keys (copy_stats stats row))"
proof (induction row arbitrary: stats)
  case Nil
  then show ?case by simp
next
  case (Cons kv row)
  obtain k v where kv: "kv = (k, v)" by (cases kv)
  show ?case unfolding kv using Cons.prems by (auto intro!: Cons.IH dict_set_distinct)
qed

lemma copy_stats_get:
  "distinct (dict_keys row) \<Longrightarrow>
   dict_get (copy_stats stats row) k =
     (if k \<in> set (dict_keys row) \<and> k \<noteq> ''input VCF file'' then dict_get row k else dict_get stats k)"
proof (induction row arbitrary: stats)
  case Nil
  then show ?case by (simp add: dict_keys_def)
next
  case (Cons kv row)
  obtain k' v where kv: "kv = (k', v)" by (cases kv)
  have d: "distinct (dict_keys row)" "k' \<notin> set (dict_keys row)"
    using Cons.prems by (simp_all add: kv dict_keys_def)
  show ?case unfolding kv
    using d(2) by (auto simp: Cons.IH[OF d(1)] dict_get_set dict_keys_def)
qed

lemma add_stats_keys:
  "set (dict_keys (add_stats statsData info)) = set (dict_keys statsData) \<union> set (dict_keys info)"
proof (induction info arbitrary: statsData)
  case Nil
  then show ?case by (simp add: dict_keys_def)
next
  case (Cons kv info)
  obtain k v where kv: "kv = (k, v)" by (cases kv)
  show ?case unfolding kv
    by (simp add: Cons.IH dict_keys_set) (auto simp: dict_keys_def)
qed

lemma add_stats_distinct:
  "distinct (dict_keys statsData) \<Longrightarrow> distinct (dict_keys (add_stats statsData info))"
proof (induction info arbitrary: statsData)
  case Nil
  then show ?case by simp
next
  case (Cons kv info)
  obtain k v where kv: "kv = (k, v)" by (cases kv)
  show ?case unfolding kv using Cons.prems by (auto intro!: Cons.IH dict_set_distinct)
qed

lemma add_stats_get:
  "distinct (dict_keys info) \<Longrightarrow>
   dict_get (add_stats statsData info) k =
     (case dict_get info k of None \<Rightarrow> dict_get statsData k | Some v \<Rightarrow> Some (StrV v))"
proof (induction info arbitrary: statsData)
  case Nil
  then show ?case by simp
next
  case (Cons kv info)
  obtain k' v where kv: "kv = (k', v)" by (cases kv)
  have d: "distinct (dict_keys info)" "k' \<notin> set (dict_keys info)"
    using Cons.prems by (simp_all add: kv dict_keys_def)
  then have n: "dict_get info k' = None" by (simp add: dict_get_None_iff)
  show ?case unfolding kv
    using n by (auto simp: Cons.IH[OF d(1)] dict_get_set split: option.splits)
qed

lemma add_stats_get_other:
  "k \<notin> set (dict_keys info) \<Longrightarrow> dict_get (add_stats statsData info) k = dict_get statsData k"
proof (induction info arbitrary: statsData)
  case Nil
  then show ?case by simp
next
  case (Cons kv info)
  obtain k' v where kv: "kv = (k', v)" by (cases kv)
  from Cons.prems have "k \<noteq> k'" "k \<notin> set (dict_keys info)" by (simp_all add: kv dict_keys_def)
  then show ?case unfolding kv by (simp add: Cons.IH dict_get_set)
qed

lemma run_Inr:
  assumes "run a = Inr (plot, stats)"
  shows "\<exists>amps counts rc dr ren sd.
           getSchemeAmplicons (scheme a) = Inr amps
         \<and> getAmpliconCounts amps (align_report a) = Inr counts
         \<and> rename_counts (min_depth a) (0, 0, []) counts = Inr (rc, dr, ren)
         \<and> plot = GetPlotDataTemplate (min_depth a) (sample a) ren
         \<and> stats = GetStatsTemplate (sample a) sd
         \<and> (case vcf_report a of
               None \<Rightarrow> sd = base_stats rc dr
             | Some rows \<Rightarrow> \<exists>first rest. rows = first # rest
                     \<and> sd = add_stats (base_stats rc dr) (copy_stats [] first))"
proof -
  from assms obtain amps where amps: "getSchemeAmplicons (scheme a) = Inr amps"
    by (cases "getSchemeAmplicons (scheme a)") (simp_all add: run_def)
  from assms amps obtain counts where counts: "getAmpliconCounts amps (align_report a) = Inr counts"
    by (cases "getAmpliconCounts amps (align_report a)") (simp_all add: run_def)
  from assms amps counts obtain st where st: "rename_counts (min_depth a) (0, 0, []) counts = Inr st"
    by (cases "rename_counts (min_depth a) (0, 0, []) counts") (simp_all add: run_def)
  obtain rc dr ren where t: "st = (rc, dr, ren)" by (cases st)
  show ?thesis
  proof (cases "vcf_report a")
    case None
    with assms amps counts st t show ?thesis
      by (auto simp: run_def base_stats_def)
  next
    case (Some rows)
    show ?thesis
    proof (cases rows)
      case Nil
      with assms amps counts st t Some show ?thesis
        by (simp add: run_def getVCFreportInfo_def)
    next
      case (Cons first rest)
      with assms amps counts st t Some show ?thesis
        by (auto simp: run_def getVCFreportInfo_def base_stats_def)
    qed
  qed
qed

lemma example_counts_x:
  "getAmpliconCounts [(amplicon_key ''x_1'', 0), (amplicon_key ''x_2'', 0)] (example_report ''x_'')
     = Inr [(amplicon_key ''x_1'', 3), (amplicon_key ''x_2'', 1)]"
  using example_counts[of "''x_''"] by simp

lemma stats_data_template [simp]: "stats_data (GetStatsTemplate s sd) = [(s, sd)]"
  by (simp add: GetStatsTemplate_def)

lemma plot_data_template [simp]: "plot_data (GetPlotDataTemplate md s d) = [(s, d)]"
  by (simp add: GetPlotDataTemplate_def)

text \<open>
  Claim C3, as the code has it. When the run completes, the entry \<open># mapped reads\<close> of
  the stats document is the sum of the final counts, provided no variant report is given
  or the first row of the variant report has no column of that name. The columns of the
  variant report are copied into the same mapping after the two counts, so a column named
  \<open># mapped reads\<close> replaces the sum by the text of its cell: the third theorem below.
\<close>
theorem run_mapped_reads:
  assumes "run a = Inr (plot, stats)"
    and "vcf_report a = None \<or>
         (\<exists>first rest. vcf_report a = Some (first # rest)
            \<and> ''# mapped reads'' \<notin> set (dict_keys first))"
  shows "\<exists>amps counts sd.
           getSchemeAmplicons (scheme a) = Inr amps
         \<and> getAmpliconCounts amps (align_report a) = Inr counts
         \<and> stats_data stats = [(sample a, sd)]
         \<and> dict_get sd ''# mapped reads'' = Some (IntV (sum_list (dict_values counts)))"
proof -
  from run_Inr[OF assms(1)] obtain amps counts rc dr ren sd where r:
    "getSchemeAmplicons (scheme a) = Inr amps"
    "getAmpliconCounts amps (align_report a) = Inr counts"
    "rename_counts (min_depth a) (0, 0, []) counts = Inr (rc, dr, ren)"
    "stats = GetStatsTemplate (sample a) sd"
    "case vcf_report a of
       None \<Rightarrow> sd = base_stats rc dr
     | Some rows \<Rightarrow> \<exists>first rest. rows = first # rest
             \<and> sd = add_stats (base_stats rc dr) (copy_stats [] first)"
    by blast
  have rc: "rc = sum_list (dict_values counts)"
    using rename_counts_totals[OF r(3)] by simp
  have "dict_get sd ''# mapped reads'' = Some (IntV rc)"
  proof (cases "vcf_report a")
    case None
    with r(5) show ?thesis by (simp add: base_stats_def)
  next
    case (Some rows)
    with assms(2) obtain first rest where f: "rows = first # rest"
      "''# mapped reads'' \<notin> set (dict_keys first)" by auto
    from r(5) Some f(1) have sd: "sd = add_stats (base_stats rc dr) (copy_stats [] first)" by simp
    have "''# mapped reads'' \<notin> set (dict_keys (copy_stats [] first))"
      using f(2) by (simp add: copy_stats_keys dict_keys_Nil)
    then show ?thesis unfolding sd by (simp add: add_stats_get_other base_stats_def)
  qed
  with r(1,2,4) rc show ?thesis by auto
qed

theorem run_mapped_reads_witness:
  "\<exists>sd. dict_get sd ''# mapped reads'' = Some (IntV 4)
      \<and> run \<lparr>scheme = example_scheme ''x_'', align_report = example_report ''x_'',
               vcf_report = Some [[(''input VCF file'', ''a.vcf''), (''num variants'', ''7'')]],
               min_depth = 2, sample = ''s1''\<rparr>
          = Inr (GetPlotDataTemplate 2 ''s1'' [(1, 3), (2, 1)], GetStatsTemplate ''s1'' sd)"
proof -
  let ?a = "\<lparr>scheme = example_scheme ''x_'', align_report = example_report ''x_'',
               vcf_report = Some [[(''input VCF file'', ''a.vcf''), (''num variants'', ''7'')]],
               min_depth = 2, sample = ''s1''\<rparr>"
  let ?sd = "[(''# mapped reads'', IntV 4), (''# low cov. amplicons'', IntV 1),
              (''num variants'', StrV ''7'')]"
  have run: "run ?a = Inr (GetPlotDataTemplate 2 ''s1'' [(1, 3), (2, 1)], GetStatsTemplate ''s1'' ?sd)"
    by (simp add: run_def example_scheme_x example_counts_x amplicon_index_examples
        getVCFreportInfo_def)
  have h: "vcf_report ?a = None \<or>
         (\<exists>first rest. vcf_report ?a = Some (first # rest)
            \<and> ''# mapped reads'' \<notin> set (dict_keys first))"
    by (simp add: dict_keys_def)
  from run_mapped_reads[OF run h] obtain sd where
    "stats_data (GetStatsTemplate ''s1'' ?sd) = [(sample ?a, sd)]"
    "dict_get sd ''# mapped reads'' = Some (IntV (sum_list (dict_values
        [(amplicon_key ''x_1'', 3), (amplicon_key ''x_2'', 1)])))"
    by (auto simp: example_scheme_x example_counts_x)
  then have "dict_get ?sd ''# mapped reads'' = Some (IntV 4)"
    by (simp add: dict_values_def)
  with run show ?thesis by blast
qed

text \<open>A variant report with a column \<open># mapped reads\<close>: the stats show its cell, not 4.\<close>

theorem run_mapped_reads_overwritten:
  "getSchemeAmplicons (example_scheme ''x_'')
     = Inr [(amplicon_key ''x_1'', 0), (amplicon_key ''x_2'', 0)]
   \<and> getAmpliconCounts [(amplicon_key ''x_1'', 0), (amplicon_key ''x_2'', 0)] (example_report ''x_'')
     = Inr [(amplicon_key ''x_1'', 3), (amplicon_key ''x_2'', 1)]
   \<and> run \<lparr>scheme = example_scheme ''x_'', align_report = example_report ''x_'',
           vcf_report = Some [[(''input VCF file'', ''a.vcf''), (''# mapped reads'', ''999'')]],
           min_depth = 2, sample = ''s1''\<rparr>
      = Inr (GetPlotDataTemplate 2 ''s1'' [(1, 3), (2, 1)],
             GetStatsTemplate ''s1''
               [(''# mapped reads'', StrV ''999''), (''# low cov. amplicons'', IntV 1)])"
  by (simp add: run_def example_scheme_x example_counts_x amplicon_index_examples
      getVCFreportInfo_def)



lemma getSchemeAmplicons_distinct:
  assumes "getSchemeAmplicons ps = Inr amps"
  shows "distinct (dict_keys amps)"
proof (cases "\<forall>b \<in> amplicon_of ` set ps. count_list (map amplicon_of ps) b = 2")
  case True
  from getSchemeAmplicons_ok[OF True] assms show ?thesis by auto
next
  case False
  from getSchemeAmplicons_fail[OF False] assms show ?thesis by auto
qed


text \<open>
  Claim C7, as the code has it. For counts that come from a scheme the resolver accepts,
  when the renumbering completes and no two keys have the same index (the integer read
  from their second token), the renumbered mapping has as many entries as the counts, its
  keys are pairwise distinct, its entries are those of the counts in the same order with
  each key replaced by its index, and each of its keys is the index of exactly one
  original key. Two amplicons with the same index, such as \<open>a_1\<close> and \<open>b_1\<close>, share
  one entry of the renumbered mapping: the third theorem below.
\<close>
theorem rename_counts_bijection:
  assumes "getSchemeAmplicons ps = Inr amps"
    and "getAmpliconCounts amps report = Inr counts"
    and "rename_counts md (0, 0, []) counts = Inr (rc, dr, ren)"
    and "inj_on amplicon_index (set (dict_keys counts))"
  shows "length ren = length counts
       \<and> distinct (dict_keys ren)
       \<and> map (\<lambda>(n, c). (Inr n, c)) ren = map (\<lambda>(k, c). (amplicon_index k, c)) counts
       \<and> (\<forall>n \<in> set (dict_keys ren). \<exists>!k. k \<in> set (dict_keys counts) \<and> amplicon_index k = Inr n)"
proof -
  have keys: "dict_keys counts = dict_keys amps"
    using assms(2) by (rule getAmpliconCounts_keys)
  have d: "distinct (dict_keys counts)"
    unfolding keys using assms(1) by (rule getSchemeAmplicons_distinct)
  have m: "map (\<lambda>(n, c). (Inr n, c)) ren = map (\<lambda>(k, c). (amplicon_index k, c)) counts"
    using rename_counts_injective[OF assms(3) d assms(4)] by (simp add: dict_keys_Nil)
  then have len: "length ren = length counts" by (rule map_eq_imp_length_eq)
  from m have "map fst (map (\<lambda>(n, c). (Inr n :: error + int, c)) ren)
      = map fst (map (\<lambda>(k, c). (amplicon_index k, c)) counts)" by simp
  then have k: "map Inr (dict_keys ren) = map amplicon_index (dict_keys counts)"
    by (simp add: dict_keys_def case_prod_unfold comp_def)
  have "distinct (map amplicon_index (dict_keys counts))"
    using d assms(4) by (simp add: distinct_map)
  with k have "distinct (map (Inr :: int \<Rightarrow> error + int) (dict_keys ren))" by simp
  then have dr: "distinct (dict_keys ren)" by (simp add: distinct_map)
  have u: "\<forall>n \<in> set (dict_keys ren). \<exists>!k. k \<in> set (dict_keys counts) \<and> amplicon_index k = Inr n"
  proof
    fix n assume "n \<in> set (dict_keys ren)"
    then have "Inr n \<in> set (map (Inr :: int \<Rightarrow> error + int) (dict_keys ren))" by simp
    with k have "Inr n \<in> set (map amplicon_index (dict_keys counts))" by simp
    then obtain k0 where k0: "k0 \<in> set (dict_keys counts)" "amplicon_index k0 = Inr n" by auto
    show "\<exists>!k. k \<in> set (dict_keys counts) \<and> amplicon_index k = Inr n"
    proof (rule ex1I[of _ k0])
      show "k0 \<in> set (dict_keys counts) \<and> amplicon_index k0 = Inr n" using k0 by simp
    next
      fix k assume "k \<in> set (dict_keys counts) \<and> amplicon_index k = Inr n"
      with k0 assms(4) show "k = k0" by (metis inj_onD)
    qed
  qed
  from len dr m u show ?thesis by blast
qed

theorem rename_counts_bijection_witness:
  "getSchemeAmplicons (example_scheme ''x_'')
     = Inr [(amplicon_key ''x_1'', 0), (amplicon_key ''x_2'', 0)]
   \<and> getAmpliconCounts [(amplicon_key ''x_1'', 0), (amplicon_key ''x_2'', 0)] (example_report ''x_'')
     = Inr [(amplicon_key ''x_1'', 3), (amplicon_key ''x_2'', 1)]
   \<and> rename_counts 2 (0, 0, []) [(amplicon_key ''x_1'', 3), (amplicon_key ''x_2'', 1)]
     = Inr (4, 1, [(1, 3), (2, 1)])
   \<and> length [(1::int, 3::int), (2, 1)] = length [(amplicon_key ''x_1'', 3::int), (amplicon_key ''x_2'', 1)]
   \<and> distinct (dict_keys [(1::int, 3::int), (2, 1)])"
proof -
  let ?counts = "[(amplicon_key ''x_1'', 3::int), (amplicon_key ''x_2'', 1)]"
  have r: "rename_counts 2 (0, 0, []) ?counts = Inr (4, 1, [(1, 3), (2, 1)])"
    by (simp add: amplicon_index_examples)
  have i: "inj_on amplicon_index (set (dict_keys ?counts))"
    by (simp add: dict_keys_def amplicon_index_examples)
  from rename_counts_bijection[OF example_scheme_x example_counts_x r i]
  have "length [(1::int, 3::int), (2, 1)] = length ?counts
       \<and> distinct (dict_keys [(1::int, 3::int), (2, 1)])" by blast
  with example_scheme_x example_counts_x r show ?thesis by simp
qed

text \<open>A scheme the resolver accepts, with two amplicons of index 1: one renumbered entry.\<close>

theorem rename_counts_collision:
  "getSchemeAmplicons colliding_scheme
     = Inr [(amplicon_key ''a_1'', 0), (amplicon_key ''b_1'', 0)]
   \<and> getAmpliconCounts [(amplicon_key ''a_1'', 0), (amplicon_key ''b_1'', 0)] [example_header]
     = Inr [(amplicon_key ''a_1'', 0), (amplicon_key ''b_1'', 0)]
   \<and> rename_counts 20 (0, 0, []) [(amplicon_key ''a_1'', 0), (amplicon_key ''b_1'', 0)]
     = Inr (0, 2, [(1, 0)])
   \<and> run \<lparr>scheme = colliding_scheme, align_report = [example_header], vcf_report = None,
           min_depth = 20, sample = ''s1''\<rparr>
     = Inr (GetPlotDataTemplate 20 ''s1'' [(1, 0)],
            GetStatsTemplate ''s1'' [(''# mapped reads'', IntV 0), (''# low cov. amplicons'', IntV 2)])"
proof -
  have s: "getSchemeAmplicons colliding_scheme
     = Inr [(amplicon_key ''a_1'', 0), (amplicon_key ''b_1'', 0)]"
    by (simp add: getSchemeAmplicons_def colliding_scheme_def amplicon_of_def dict_incr_def
        dict_keys_def amplicon_key_def)
  have c: "getAmpliconCounts [(amplicon_key ''a_1'', 0), (amplicon_key ''b_1'', 0)] [example_header]
     = Inr [(amplicon_key ''a_1'', 0), (amplicon_key ''b_1'', 0)]"
    by (simp add: getAmpliconCounts_def)
  have i: "amplicon_index (amplicon_key ''a_1'') = Inr 1" "amplicon_index (amplicon_key ''b_1'') = Inr 1"
    by (simp_all add: amplicon_index_def amplicon_key_def py_index_def py_int_def lstrip_def
        rstrip_def is_space_def parse_unsigned_def is_digit_def digit_val_def)
  have r: "rename_counts 20 (0, 0, []) [(amplicon_key ''a_1'', 0), (amplicon_key ''b_1'', 0)]
     = Inr (0, 2, [(1, 0)])"
    by (simp add: i)
  from s c r show ?thesis by (simp add: run_def)
qed

text \<open>
  Claim C9. When the run completes, the data of the stats document is one mapping under
  the sample name. Without a variant report its keys are \<open># mapped reads\<close> and
  \<open># low cov. amplicons\<close>, in this order. With a variant report its keys are these two
  and every column of the first data row except \<open>input VCF file\<close>, and no other; each
  such column carries the text of its cell.
\<close>
theorem run_stats_keys:
  assumes "run a = Inr (plot, stats)"
  shows "\<exists>sd. stats_data stats = [(sample a, sd)] \<and> distinct (dict_keys sd) \<and>
     (case vcf_report a of
        None \<Rightarrow> dict_keys sd = [''# mapped reads'', ''# low cov. amplicons'']
      | Some rows \<Rightarrow> \<exists>first rest. rows = first # rest
          \<and> set (dict_keys sd) =
              {''# mapped reads'', ''# low cov. amplicons''}
                \<union> (set (dict_keys first) - {''input VCF file''})
          \<and> (distinct (dict_keys first) \<longrightarrow>
               (\<forall>k v. dict_get first k = Some v \<and> k \<noteq> ''input VCF file''
                   \<longrightarrow> dict_get sd k = Some (StrV v))))"
proof -
  from run_Inr[OF assms] obtain rc dr sd where r:
    "stats = GetStatsTemplate (sample a) sd"
    "case vcf_report a of
       None \<Rightarrow> sd = base_stats rc dr
     | Some rows \<Rightarrow> \<exists>first rest. rows = first # rest
             \<and> sd = add_stats (base_stats rc dr) (copy_stats [] first)"
    by blast
  have bk: "dict_keys (base_stats rc dr) = [''# mapped reads'', ''# low cov. amplicons'']"
    by (simp add: base_stats_def dict_keys_def)
  have c: "case vcf_report a of
        None \<Rightarrow> dict_keys sd = [''# mapped reads'', ''# low cov. amplicons'']
      | Some rows \<Rightarrow> \<exists>first rest. rows = first # rest
          \<and> set (dict_keys sd) =
              {''# mapped reads'', ''# low cov. amplicons''}
                \<union> (set (dict_keys first) - {''input VCF file''})
          \<and> (distinct (dict_keys first) \<longrightarrow>
               (\<forall>k v. dict_get first k = Some v \<and> k \<noteq> ''input VCF file''
                   \<longrightarrow> dict_get sd k = Some (StrV v)))"
  proof (cases "vcf_report a")
    case None
    with r(2) bk show ?thesis by simp
  next
    case (Some rows)
    with r(2) obtain first rest where f: "rows = first # rest"
      "sd = add_stats (base_stats rc dr) (copy_stats [] first)" by auto
    have k: "set (dict_keys sd) =
              {''# mapped reads'', ''# low cov. amplicons''}
                \<union> (set (dict_keys first) - {''input VCF file''})"
      unfolding f(2) by (simp add: add_stats_keys copy_stats_keys bk dict_keys_Nil)
    have v: "dict_get sd k = Some (StrV v)"
      if d: "distinct (dict_keys first)" and g: "dict_get first k = Some v"
        and n: "k \<noteq> ''input VCF file''" for k v
    proof -
      have "k \<in> set (dict_keys first)" using g dict_get_None_iff[of first k] by auto
      then have "dict_get (copy_stats [] first) k = Some v"
        using copy_stats_get[OF d, of "[]" k] g n by simp
      moreover have "distinct (dict_keys (copy_stats [] first))"
        by (rule copy_stats_distinct) (simp add: dict_keys_Nil)
      ultimately show ?thesis unfolding f(2) by (simp add: add_stats_get)
    qed
    from Some f(1) k v show ?thesis by auto
  qed
  have d: "distinct (dict_keys sd)"
  proof (cases "vcf_report a")
    case None
    with r(2) bk show ?thesis by simp
  next
    case (Some rows)
    with r(2) obtain first where "sd = add_stats (base_stats rc dr) (copy_stats [] first)" by auto
    then show ?thesis by (simp add: add_stats_distinct bk)
  qed
  from r(1) c d show ?thesis by auto
qed

theorem run_stats_keys_witness:
  "\<exists>sd. run \<lparr>scheme = example_scheme ''x_'', align_report = example_report ''x_'',
               vcf_report = Some [[(''input VCF file'', ''a.vcf''), (''num variants'', ''7'')]],
               min_depth = 2, sample = ''s1''\<rparr>
          = Inr (GetPlotDataTemplate 2 ''s1'' [(1, 3), (2, 1)], GetStatsTemplate ''s1'' sd)
      \<and> set (dict_keys sd) = {''# mapped reads'', ''# low cov. amplicons'', ''num variants''}
      \<and> dict_get sd ''num variants'' = Some (StrV ''7'')"
proof -
  let ?a = "\<lparr>scheme = example_scheme ''x_'', align_report = example_report ''x_'',
               vcf_report = Some [[(''input VCF file'', ''a.vcf''), (''num variants'', ''7'')]],
               min_depth = 2, sample = ''s1''\<rparr>"
  let ?sd = "[(''# mapped reads'', IntV 4), (''# low cov. amplicons'', IntV 1),
              (''num variants'', StrV ''7'')]"
  have run: "run ?a = Inr (GetPlotDataTemplate 2 ''s1'' [(1, 3), (2, 1)], GetStatsTemplate ''s1'' ?sd)"
    by (simp add: run_def example_scheme_x example_counts_x amplicon_index_examples
        getVCFreportInfo_def)
  from run_stats_keys[OF run]
  have "set (dict_keys ?sd) =
          {''# mapped reads'', ''# low cov. amplicons''}
            \<union> (set (dict_keys [(''input VCF file'', ''a.vcf''), (''num variants'', ''7'')])
                 - {''input VCF file''})"
    by simp
  then have "set (dict_keys ?sd) = {''# mapped reads'', ''# low cov. amplicons'', ''num variants''}"
    by (simp add: dict_keys_def)
  with run show ?thesis by (intro exI[of _ ?sd]) simp
qed








end
